theory Spec2Isabelle
  imports Main "HOL-Library.Word"
begin

section \<open>Python values used by scraper.py\<close>

text \<open>
  Text is a \<open>string\<close>: one \<open>char\<close> stands for one character of the Python
  \<open>str\<close> (code points below 256), so \<open>length\<close> is Python's \<open>len\<close>.
  The exceptions that the modelled statements can raise are values of \<open>exn\<close>.
\<close>

datatype exn = ValueError | TypeError | OverflowError | IndexError | KeyError

text \<open>\<open>s.split(sep)\<close> with an explicit one-character separator: every occurrence
  of the separator cuts, empty pieces are kept, the empty text gives one empty piece.\<close>

fun split_on :: "'a \<Rightarrow> 'a list \<Rightarrow> 'a list list" where
  "split_on sep [] = [[]]"
| "split_on sep (c # cs) =
     (if c = sep then [] # split_on sep cs
      else (case split_on sep cs of
              [] \<Rightarrow> [[c]]
            | p # ps \<Rightarrow> (c # p) # ps))"

definition newline :: char where
  "newline = CHR 0x0A"

definition space :: char where
  "space = CHR 0x20"

text \<open>List slices \<open>xs[:k]\<close> and \<open>xs[k:]\<close>; a negative bound counts from the end
  and bounds outside the list are clipped.\<close>

definition slice_bound :: "'a list \<Rightarrow> int \<Rightarrow> nat" where
  "slice_bound xs k = (if k < 0 then nat (int (length xs) + k) else nat k)"

definition slice_to :: "'a list \<Rightarrow> int \<Rightarrow> 'a list" where
  "slice_to xs k = take (slice_bound xs k) xs"

definition slice_from :: "'a list \<Rightarrow> int \<Rightarrow> 'a list" where
  "slice_from xs k = drop (slice_bound xs k) xs"

text \<open>\<open>range(n)\<close> is empty for \<open>n \<le> 0\<close>.\<close>

definition py_range :: "int \<Rightarrow> nat list" where
  "py_range n = [0 ..< nat n]"

text \<open>\<open>xs[i]\<close> for \<open>i \<ge> 0\<close>: IndexError outside the list.\<close>

definition list_getitem :: "'a list \<Rightarrow> nat \<Rightarrow> exn + 'a" where
  "list_getitem xs i = (if i < length xs then Inr (xs ! i) else Inl IndexError)"

section \<open>The pandas table\<close>

text \<open>
  A cell of an object column is a Python object: a text, or \<open>None\<close> where pandas
  filled a short row. A column (Series) has one dtype; \<open>float32\<close> values are kept
  as their 32-bit patterns. A DataFrame is its row count and its named columns, in
  order.
\<close>

datatype obj = Str string | PyNone

type_synonym float32 = "32 word"

datatype series = ObjectS "obj list" | IntS "int list" | Float32S "float32 list"

fun series_len :: "series \<Rightarrow> nat" where
  "series_len (ObjectS os) = length os"
| "series_len (IntS xs) = length xs"
| "series_len (Float32S fs) = length fs"

record frame =
  index :: nat
  cols :: "(string \<times> series) list"

definition columns :: "frame \<Rightarrow> string list" where
  "columns df = map fst (cols df)"

text \<open>
  \<open>pd.DataFrame(rows, columns=headers)\<close> for a list of lists of texts. With no
  rows the table has the given columns and no rows. Otherwise the rows are filled
  with \<open>None\<close> up to the longest row, and pandas raises ValueError unless that
  width is the number of column names.
\<close>

definition row_cell :: "string list \<Rightarrow> nat \<Rightarrow> obj" where
  "row_cell r j = (if j < length r then Str (r ! j) else PyNone)"

definition row_width :: "string list list \<Rightarrow> nat" where
  "row_width rows = foldr (\<lambda>r w. max (length r) w) rows 0"

definition DataFrame :: "string list list \<Rightarrow> string list \<Rightarrow> exn + frame" where
  "DataFrame rows headers =
     (if rows = [] then
        Inr \<lparr>index = 0, cols = map (\<lambda>h. (h, ObjectS [])) headers\<rparr>
      else if row_width rows \<noteq> length headers then Inl ValueError
      else Inr \<lparr>index = length rows,
                cols = map (\<lambda>j. (headers ! j, ObjectS (map (\<lambda>r. row_cell r j) rows)))
                           [0 ..< length headers]\<rparr>)"

section \<open>clean_raw\<close>

text \<open>The inner loop: every piece of the split data line is appended to
  \<open>clean_data\<close>.\<close>

fun append_all :: "'a list \<Rightarrow> 'a list \<Rightarrow> 'a list" where
  "append_all clean_data [] = clean_data"
| "append_all clean_data (number # rest) = append_all (clean_data @ [number]) rest"

text \<open>The outer loop over \<open>row\<close>, with \<open>df_lst\<close> as accumulator. Every read of
  \<open>data\<close> is checked.\<close>

fun clean_rows :: "string list \<Rightarrow> nat list \<Rightarrow> string list list \<Rightarrow> exn + string list list" where
  "clean_rows data [] df_lst = Inr df_lst"
| "clean_rows data (row # rest) df_lst =
     (case list_getitem data row of
        Inl e \<Rightarrow> Inl e
      | Inr line \<Rightarrow>
          if length line \<le> 2 then
            (case list_getitem data (row + 1) of
               Inl e \<Rightarrow> Inl e
             | Inr team_name \<Rightarrow>
                 (case list_getitem data (row + 2) of
                    Inl e \<Rightarrow> Inl e
                  | Inr num_data \<Rightarrow>
                      clean_rows data rest
                        (df_lst @ [append_all [team_name] (split_on space num_data)])))
          else clean_rows data rest df_lst)"

text \<open>The indices the outer loop runs over: \<open>range(len(data) - 2)\<close>.\<close>

definition scan_range :: "string list \<Rightarrow> nat list" where
  "scan_range data = py_range (int (length data) - 2)"

definition raw_headers :: "string \<Rightarrow> int \<Rightarrow> string list" where
  "raw_headers text head_ind_start = slice_to (split_on newline text) head_ind_start"

definition raw_lines :: "string \<Rightarrow> int \<Rightarrow> string list" where
  "raw_lines text head_ind_start = slice_from (split_on newline text) head_ind_start"

definition clean_raw :: "string \<Rightarrow> int \<Rightarrow> exn + frame" where
  "clean_raw text head_ind_start =
     (let headers = raw_headers text head_ind_start;
          data = raw_lines text head_ind_start
      in case clean_rows data (scan_range data) [] of
           Inl e \<Rightarrow> Inl e
         | Inr df_lst \<Rightarrow> DataFrame df_lst headers)"

text \<open>The rows the scan builds, in closed form: one row for every index
  \<open>i < len(data) - 2\<close> whose line has at most two characters. The loop is proved
  equal to it below.\<close>

definition marker_rows :: "string list \<Rightarrow> string list list" where
  "marker_rows data =
     map (\<lambda>i. data ! (i + 1) # split_on space (data ! (i + 2)))
         (filter (\<lambda>i. length (data ! i) \<le> 2) [0 ..< length data - 2])"

section \<open>data_mung\<close>

text \<open>
  The element conversions of numpy and pandas are parameters of the model:
  what \<open>astype('int')\<close> and \<open>astype('float32')\<close> make of one cell of an object
  column (a value, or the exception raised), of one \<open>float32\<close> value and of one
  integer.
\<close>

record numpy =
  obj_to_int :: "obj \<Rightarrow> exn + int"
  obj_to_f32 :: "obj \<Rightarrow> exn + float32"
  f32_to_int :: "float32 \<Rightarrow> exn + int"
  int_to_f32 :: "int \<Rightarrow> float32"

datatype dtype = int_t | float32_t

text \<open>A conversion of a whole column goes through the cells in order and stops at the
  first exception; the new column exists only when every cell converted.\<close>

fun traverse :: "('a \<Rightarrow> exn + 'b) \<Rightarrow> 'a list \<Rightarrow> exn + 'b list" where
  "traverse f [] = Inr []"
| "traverse f (x # xs) =
     (case f x of
        Inl e \<Rightarrow> Inl e
      | Inr y \<Rightarrow> (case traverse f xs of Inl e \<Rightarrow> Inl e | Inr ys \<Rightarrow> Inr (y # ys)))"

fun astype :: "numpy \<Rightarrow> series \<Rightarrow> dtype \<Rightarrow> exn + series" where
  "astype np (IntS xs) int_t = Inr (IntS xs)"
| "astype np (Float32S fs) int_t =
     (case traverse (f32_to_int np) fs of Inl e \<Rightarrow> Inl e | Inr xs \<Rightarrow> Inr (IntS xs))"
| "astype np (ObjectS os) int_t =
     (case traverse (obj_to_int np) os of Inl e \<Rightarrow> Inl e | Inr xs \<Rightarrow> Inr (IntS xs))"
| "astype np (IntS xs) float32_t = Inr (Float32S (map (int_to_f32 np) xs))"
| "astype np (Float32S fs) float32_t = Inr (Float32S fs)"
| "astype np (ObjectS os) float32_t =
     (case traverse (obj_to_f32 np) os of Inl e \<Rightarrow> Inl e | Inr fs \<Rightarrow> Inr (Float32S fs))"

text \<open>\<open>df[col]\<close> and \<open>df[col] = s\<close> on a table whose column names are unique.\<close>

fun getitem :: "(string \<times> series) list \<Rightarrow> string \<Rightarrow> exn + series" where
  "getitem [] col = Inl KeyError"
| "getitem ((name, s) # rest) col = (if name = col then Inr s else getitem rest col)"

fun setitem :: "(string \<times> series) list \<Rightarrow> string \<Rightarrow> series \<Rightarrow> (string \<times> series) list" where
  "setitem [] col v = [(col, v)]"
| "setitem ((name, s) # rest) col v =
     (if name = col then (name, v) # rest else (name, s) # setitem rest col v)"

definition float_cols :: "string list" where
  "float_cols = [''AVG'', ''OBP'', ''SLG'', ''OPS'', ''IP'', ''ERA'', ''WHIP'', ''AVG'']"

text \<open>The body of the \<open>try\<close>: the new table, or the exception raised.\<close>

definition convert_col :: "numpy \<Rightarrow> frame \<Rightarrow> string \<Rightarrow> exn + frame" where
  "convert_col np stats_df col =
     (if col \<notin> set float_cols then
        (case getitem (cols stats_df) col of
           Inl e \<Rightarrow> Inl e
         | Inr s \<Rightarrow>
             (case astype np s int_t of
                Inl e \<Rightarrow> Inl e
              | Inr v \<Rightarrow> Inr (stats_df\<lparr>cols := setitem (cols stats_df) col v\<rparr>)))
      else if col \<in> set float_cols then
        (case getitem (cols stats_df) col of
           Inl e \<Rightarrow> Inl e
         | Inr s \<Rightarrow>
             (case astype np s float32_t of
                Inl e \<Rightarrow> Inl e
              | Inr v \<Rightarrow> Inr (stats_df\<lparr>cols := setitem (cols stats_df) col v\<rparr>)))
      else Inr stats_df)"

text \<open>The loop over the column names. The table is changed in place, so the result is
  the table as the call leaves it, with the exception that escaped, if any:
  ValueError is caught and the loop goes on, any other exception ends the call.\<close>

fun data_mung_loop :: "numpy \<Rightarrow> string list \<Rightarrow> frame \<Rightarrow> exn option \<times> frame" where
  "data_mung_loop np [] stats_df = (None, stats_df)"
| "data_mung_loop np (col # rest) stats_df =
     (case convert_col np stats_df col of
        Inl e \<Rightarrow>
          if e = ValueError then data_mung_loop np rest stats_df
          else (Some e, stats_df)
      | Inr df' \<Rightarrow> data_mung_loop np rest df')"

definition data_mung :: "numpy \<Rightarrow> frame \<Rightarrow> exn option \<times> frame" where
  "data_mung np stats_df = data_mung_loop np (columns stats_df) stats_df"

text \<open>The dtype that the loop body asks for, by the name of the column.\<close>

definition target :: "string \<Rightarrow> dtype" where
  "target col = (if col \<in> set float_cols then float32_t else int_t)"

text \<open>The whole loop in closed form, column by column, for a table whose column names
  are unique; the loop is proved equal to it below.\<close>

fun mung_cols :: "numpy \<Rightarrow> (string \<times> series) list \<Rightarrow> exn option \<times> (string \<times> series) list" where
  "mung_cols np [] = (None, [])"
| "mung_cols np ((col, s) # rest) =
     (case astype np s (target col) of
        Inl e \<Rightarrow>
          if e = ValueError then
            (case mung_cols np rest of (e', rest') \<Rightarrow> (e', (col, s) # rest'))
          else (Some e, (col, s) # rest)
      | Inr v \<Rightarrow> (case mung_cols np rest of (e', rest') \<Rightarrow> (e', (col, v) # rest')))"

section \<open>The team directory and change_url\<close>

definition teams :: "(string \<times> string) list" where
  "teams =
    [(''Arizona Diamondbacks'', ''dbacks''),
     (''Atlanta Braves'', ''braves''),
     (''Baltimore Orioles'', ''orioles''),
     (''Boston Red Sox'', ''redsox''),
     (''Chicago Cubs'', ''cubs''),
     (''Chicago White Sox'', ''whitesox''),
     (''Cincinnati Reds'', ''reds''),
     (''Cleveland Indians'', ''indians''),
     (''Colorado Rockies'', ''rockies''),
     (''Detroit Tigers'', ''tigers''),
     (''Houston Astros'', ''astros''),
     (''Kansas City Royals'', ''royals''),
     (''Los Angeles Angels'', ''angels''),
     (''Los Angeles Dodgers'', ''dodgers''),
     (''Miami Marlins'', ''marlins''),
     (''Milwaukee Brewers'', ''brewers''),
     (''Minnesota Twins'', ''twins''),
     (''New York Mets'', ''mets''),
     (''New York Yankees'', ''yankees''),
     (''Oakland Athletics'', ''athletics''),
     (''Philadeliphia Phillies'', ''phillies''),
     (''Pittsburgh Pirates'', ''pirates''),
     (''San Diego Padres'', ''padres''),
     (''San Francisco Giants'', ''giants''),
     (''Seattle Mariners'', ''mariners''),
     (''St. Louis Cardenals'', ''cardenals''),
     (''Tampa Bay Rays'', ''rays''),
     (''Texas Rangers'', ''rangers''),
     (''Toronto Blue Jays'', ''bluejays''),
     (''Washington Nationals'', ''nationals'')]"

text \<open>\<open>str.lower()\<close> on code points below 256: the letters A to Z, and the
  accented capitals 192 to 222 except the multiplication sign 215, move up by 32.\<close>

definition lower_char :: "char \<Rightarrow> char" where
  "lower_char c =
     (let n = of_char c :: nat
      in if (65 \<le> n \<and> n \<le> 90) \<or> (192 \<le> n \<and> n \<le> 222 \<and> n \<noteq> 215)
         then char_of (n + 32) else c)"

definition lower :: "string \<Rightarrow> string" where
  "lower s = map lower_char s"

text \<open>\<open>xs in ys\<close> on texts: \<open>xs\<close> occurs in \<open>ys\<close> as a contiguous piece.\<close>

fun starts_with :: "'a list \<Rightarrow> 'a list \<Rightarrow> bool" where
  "starts_with ys [] = True"
| "starts_with [] (x # xs) = False"
| "starts_with (y # ys) (x # xs) = (x = y \<and> starts_with ys xs)"

fun str_in :: "'a list \<Rightarrow> 'a list \<Rightarrow> bool" where
  "str_in xs [] = (xs = [])"
| "str_in xs (y # ys) = (starts_with (y # ys) xs \<or> str_in xs ys)"

record session =
  headless :: bool
  url :: string
  hit_stats :: "frame option"
  pitch_stats :: "frame option"

definition TeamStats_init :: session where
  "TeamStats_init =
     \<lparr>headless = True, url = ''https://www.mlb.com/yankees/stats/team/'',
      hit_stats = None, pitch_stats = None\<rparr>"

text \<open>The session is changed in place: the result is the session as the call leaves
  it, with the exception raised, if any.\<close>

definition change_url :: "session \<Rightarrow> string \<Rightarrow> exn option \<times> session" where
  "change_url self team_name =
     (let new_team = map snd (filter (\<lambda>n. str_in (lower team_name) (lower (fst n))) teams)
      in case list_getitem new_team 0 of
           Inl e \<Rightarrow> (Some e, self)
         | Inr slug \<Rightarrow>
             (None, self\<lparr>url := ''https://www.mlb.com/'' @ slug @ ''/stats/team/''\<rparr>))"

section \<open>Examples\<close>

text \<open>A scraped block with two header lines and two teams.\<close>

definition example_page :: string where
  "example_page =
     ''Team'' @ [newline] @ ''Hits'' @ [newline]
     @ ''1'' @ [newline] @ ''Boston Red Sox'' @ [newline] @ ''100'' @ [newline]
     @ ''2'' @ [newline] @ ''New York Yankees'' @ [newline] @ ''90''"

definition example_lines :: "string list" where
  "example_lines = [''1'', ''Boston Red Sox'', ''100'', ''2'', ''New York Yankees'', ''90'']"

definition example_parsed :: frame where
  "example_parsed =
     \<lparr>index = 2,
      cols = [(''Team'', ObjectS [Str ''Boston Red Sox'', Str ''New York Yankees'']),
              (''Hits'', ObjectS [Str ''100'', Str ''90''])]\<rparr>"

text \<open>
  An instance of the conversions for the examples. For \<open>astype('int')\<close> it
  gives what numpy gives on a text of decimal digits (the number, OverflowError
  beyond 64 bits), on a text of letters and blanks (ValueError) and on \<open>None\<close>
  (TypeError). For \<open>astype('float32')\<close> it knows the texts \<open>.250\<close> and
  \<open>.500\<close> and \<open>None\<close> (NaN). Of the float32 values it knows 0.25, 0.5 and
  1.0, of the integers 0 and 1. On every other cell it answers ValueError, or 0.0
  for an integer; the examples use none.
\<close>

definition is_digit :: "char \<Rightarrow> bool" where
  "is_digit c \<longleftrightarrow> 48 \<le> (of_char c :: nat) \<and> (of_char c :: nat) \<le> 57"

definition digits_value :: "string \<Rightarrow> int" where
  "digits_value s = foldl (\<lambda>a c. 10 * a + (of_char c - 48)) 0 s"

definition example_numpy :: numpy where
  "example_numpy =
     \<lparr>obj_to_int = (\<lambda>x. case x of
          PyNone \<Rightarrow> Inl TypeError
        | Str s \<Rightarrow>
            if s \<noteq> [] \<and> list_all is_digit s then
              (if digits_value s < 2 ^ 63 then Inr (digits_value s) else Inl OverflowError)
            else Inl ValueError),
      obj_to_f32 = (\<lambda>x. case x of
          PyNone \<Rightarrow> Inr 0x7FC00000
        | Str s \<Rightarrow>
            if s = ''.250'' then Inr 0x3E800000
            else if s = ''.500'' then Inr 0x3F000000
            else Inl ValueError),
      f32_to_int = (\<lambda>w. if w = 0x3E800000 \<or> w = 0x3F000000 then Inr 0
                         else if w = 0x3F800000 then Inr 1 else Inl ValueError),
      int_to_f32 = (\<lambda>i. if i = 1 then 0x3F800000 else 0)\<rparr>"

definition example_table :: frame where
  "example_table =
     \<lparr>index = 2,
      cols = [(''TEAM'', ObjectS [Str ''Boston Red Sox'', Str ''New York Yankees'']),
              (''G'', ObjectS [Str ''162'', Str ''161'']),
              (''AVG'', ObjectS [Str ''.250'', Str ''.500''])]\<rparr>"

definition example_result :: frame where
  "example_result =
     \<lparr>index = 2,
      cols = [(''TEAM'', ObjectS [Str ''Boston Red Sox'', Str ''New York Yankees'']),
              (''G'', IntS [162, 161]),
              (''AVG'', Float32S [0x3E800000, 0x3F000000])]\<rparr>"

section \<open>Properties of clean_raw\<close>

lemma append_all_eq: "append_all acc xs = acc @ xs"
  by (induction xs arbitrary: acc) simp_all

lemma scan_range_eq: "scan_range data = [0 ..< length data - 2]"
  by (simp add: scan_range_def py_range_def nat_diff_distrib')

lemma clean_rows_eq:
  "\<forall>i \<in> set is. i + 2 < length data \<Longrightarrow>
   clean_rows data is acc =
     Inr (acc @ map (\<lambda>i. data ! (i + 1) # split_on space (data ! (i + 2)))
                    (filter (\<lambda>i. length (data ! i) \<le> 2) is))"
  by (induction "is" arbitrary: acc) (simp_all add: list_getitem_def append_all_eq)

lemma clean_rows_scan: "clean_rows data (scan_range data) [] = Inr (marker_rows data)"
proof -
  have "\<forall>i \<in> set (scan_range data). i + 2 < length data"
    by (auto simp: scan_range_eq)
  from clean_rows_eq [OF this, of "[]"] show ?thesis
    by (simp add: scan_range_eq marker_rows_def)
qed

lemma clean_raw_eq:
  "clean_raw text h = DataFrame (marker_rows (raw_lines text h)) (raw_headers text h)"
  by (simp add: clean_raw_def clean_rows_scan)

lemma row_cell_first: "r \<noteq> [] \<Longrightarrow> row_cell r 0 = Str (hd r)"
  by (cases r) (simp_all add: row_cell_def)

lemma DataFrame_first_col:
  assumes "DataFrame rows headers = Inr df" and "cols df \<noteq> []" and "\<forall>r \<in> set rows. r \<noteq> []"
  shows "snd (hd (cols df)) = ObjectS (map (\<lambda>r. Str (hd r)) rows)"
proof (cases "rows = []")
  case True
  with assms show ?thesis
    by (auto simp: DataFrame_def hd_map)
next
  case False
  with assms have c: "cols df = map (\<lambda>j. (headers ! j, ObjectS (map (\<lambda>r. row_cell r j) rows)))
                           [0 ..< length headers]"
    by (auto simp: DataFrame_def split: if_splits)
  with assms(2) have "headers \<noteq> []" by auto
  then have "hd (cols df) = (headers ! 0, ObjectS (map (\<lambda>r. row_cell r 0) rows))"
    by (simp add: c hd_map upt_conv_Cons)
  moreover have "map (\<lambda>r. row_cell r 0) rows = map (\<lambda>r. Str (hd r)) rows"
    using assms(3) by (simp add: row_cell_first)
  ultimately show ?thesis by simp
qed

lemma row_width_uniform:
  "\<forall>r \<in> set rows. length r = n \<Longrightarrow> row_width rows = (if rows = [] then 0 else n)"
  unfolding row_width_def
  by (induction rows) auto

lemma upt_cut: "i \<le> j \<Longrightarrow> j \<le> n \<Longrightarrow> [i ..< n] = [i ..< j] @ [j ..< n]"
  using upt_add_eq_append [of i j "n - j"] by simp

lemma upt_two_split:
  assumes "i < j" and "j < n"
  shows "[0 ..< n] = [0 ..< i] @ i # [Suc i ..< j] @ j # [Suc j ..< n]"
proof -
  have a: "[0 ..< n] = [0 ..< i] @ [i ..< n]"
    using assms by (intro upt_cut) simp_all
  have b: "[i ..< n] = i # [Suc i ..< n]"
    using assms by (simp add: upt_conv_Cons)
  have c: "[Suc i ..< n] = [Suc i ..< j] @ [j ..< n]"
    using assms by (intro upt_cut) simp_all
  have d: "[j ..< n] = j # [Suc j ..< n]"
    using assms by (simp add: upt_conv_Cons)
  show ?thesis
    by (simp only: a b c d)
qed

lemma example_raw_lines: "raw_lines example_page 2 = example_lines"
  by code_simp

lemma example_raw_headers: "raw_headers example_page 2 = [''Team'', ''Hits'']"
  by code_simp

lemma example_clean_raw: "clean_raw example_page 2 = Inr example_parsed"
  by code_simp

lemma example_rows:
  "map (\<lambda>i. example_lines ! (i + 1) # split_on space (example_lines ! (i + 2)))
       (filter (\<lambda>i. length (example_lines ! i) \<le> 2) [0 ..< length example_lines - 2])
     = [[''Boston Red Sox'', ''100''], [''New York Yankees'', ''90'']]"
  by code_simp

lemma example_names:
  "map (\<lambda>i. Str (example_lines ! (i + 1)))
       (filter (\<lambda>i. length (example_lines ! i) \<le> 2) [0 ..< length example_lines - 2])
     = [Str ''Boston Red Sox'', Str ''New York Yankees'']"
  by code_simp

lemma example_lines_split:
  "example_lines = [''1'', ''Boston Red Sox'', ''100'', ''2''] @ [''New York Yankees'', ''90'']"
  by (simp add: example_lines_def)

text \<open>
  C1. The scan builds one row for every marker: for every index below
  \<open>len(data) - 2\<close> whose line has at most two characters, in order, the row is the
  next line followed by the pieces of the line after it, split at single spaces. In
  the table that \<open>clean_raw\<close> returns, the first column holds, row by row, the
  team-name line that followed the marker.
\<close>

theorem clean_raw_row_per_marker:
  "clean_rows data (scan_range data) [] =
     Inr (map (\<lambda>i. data ! (i + 1) # split_on space (data ! (i + 2)))
              (filter (\<lambda>i. length (data ! i) \<le> 2) [0 ..< length data - 2]))
   \<and> (clean_raw text h = Inr df \<longrightarrow> cols df \<noteq> [] \<longrightarrow>
        snd (hd (cols df)) =
          ObjectS (map (\<lambda>i. Str (raw_lines text h ! (i + 1)))
                       (filter (\<lambda>i. length (raw_lines text h ! i) \<le> 2)
                               [0 ..< length (raw_lines text h) - 2])))"
proof (intro conjI impI)
  show "clean_rows data (scan_range data) [] =
     Inr (map (\<lambda>i. data ! (i + 1) # split_on space (data ! (i + 2)))
              (filter (\<lambda>i. length (data ! i) \<le> 2) [0 ..< length data - 2]))"
    by (simp add: clean_rows_scan marker_rows_def)
next
  assume df: "clean_raw text h = Inr df" and ne: "cols df \<noteq> []"
  have "\<forall>r \<in> set (marker_rows (raw_lines text h)). r \<noteq> []"
    by (auto simp: marker_rows_def)
  from DataFrame_first_col [OF df [unfolded clean_raw_eq] ne this]
  show "snd (hd (cols df)) =
          ObjectS (map (\<lambda>i. Str (raw_lines text h ! (i + 1)))
                       (filter (\<lambda>i. length (raw_lines text h ! i) \<le> 2)
                               [0 ..< length (raw_lines text h) - 2]))"
    by (simp add: marker_rows_def comp_def)
qed

theorem clean_raw_row_per_marker_witness:
  "clean_raw example_page 2 = Inr example_parsed
   \<and> cols example_parsed \<noteq> []
   \<and> snd (hd (cols example_parsed)) = ObjectS [Str ''Boston Red Sox'', Str ''New York Yankees'']
   \<and> clean_rows example_lines (scan_range example_lines) []
       = Inr [[''Boston Red Sox'', ''100''], [''New York Yankees'', ''90'']]"
proof -
  have ne: "cols example_parsed \<noteq> []"
    by (simp add: example_parsed_def)
  note th = clean_raw_row_per_marker [of example_lines example_page 2 example_parsed]
  from th [THEN conjunct1]
  have rows: "clean_rows example_lines (scan_range example_lines) []
       = Inr [[''Boston Red Sox'', ''100''], [''New York Yankees'', ''90'']]"
    by (simp only: example_rows)
  from th [THEN conjunct2, rule_format, OF example_clean_raw ne]
  have first: "snd (hd (cols example_parsed))
       = ObjectS [Str ''Boston Red Sox'', Str ''New York Yankees'']"
    by (simp only: example_raw_lines example_names)
  from example_clean_raw ne first rows show ?thesis
    by (intro conjI)
qed

text \<open>
  C2. The scan runs over the indices \<open>0\<close> to \<open>len(data) - 3\<close> and no others: with
  two more lines \<open>a\<close> and \<open>b\<close> after \<open>pre\<close> it tests the lines of \<open>pre\<close> only,
  and it builds as many rows as \<open>pre\<close> has lines of at most two characters,
  whatever \<open>a\<close> and \<open>b\<close> are. With fewer than two lines nothing is tested. No
  read of the scan leaves the list: the scan never ends in IndexError.
\<close>

theorem scan_skips_last_two:
  "scan_range (pre @ [a, b]) = [0 ..< length pre]
   \<and> (\<exists>rows. clean_rows (pre @ [a, b]) (scan_range (pre @ [a, b])) [] = Inr rows
              \<and> length rows = length (filter (\<lambda>l. length l \<le> 2) pre))
   \<and> scan_range [] = [] \<and> scan_range [a] = []
   \<and> set (scan_range data) = {i. i + 2 < length data}
   \<and> (\<exists>rows. clean_rows data (scan_range data) [] = Inr rows)"
proof -
  have "filter (\<lambda>i. length ((pre @ [a, b]) ! i) \<le> 2) [0 ..< length pre]
          = filter (\<lambda>i. length (pre ! i) \<le> 2) [0 ..< length pre]"
    by (rule filter_cong) (simp_all add: nth_append)
  then have "length (marker_rows (pre @ [a, b]))
          = length (filter (\<lambda>i. length (pre ! i) \<le> 2) [0 ..< length pre])"
    by (simp add: marker_rows_def)
  also have "\<dots> = length (filter (\<lambda>l. length l \<le> 2) (map (\<lambda>i. pre ! i) [0 ..< length pre]))"
    by (simp add: filter_map comp_def)
  also have "\<dots> = length (filter (\<lambda>l. length l \<le> 2) pre)"
    by (simp add: map_nth)
  finally have n: "length (marker_rows (pre @ [a, b])) = length (filter (\<lambda>l. length l \<le> 2) pre)" .
  have s: "set (scan_range data) = {i. i + 2 < length data}"
    by (auto simp: scan_range_eq)
  have r: "scan_range (pre @ [a, b]) = [0 ..< length pre]"
    by (simp add: scan_range_eq)
  have e: "scan_range [] = []" "scan_range [a] = []"
    by (simp_all add: scan_range_eq)
  from n have "\<exists>rows. clean_rows (pre @ [a, b]) (scan_range (pre @ [a, b])) [] = Inr rows
              \<and> length rows = length (filter (\<lambda>l. length l \<le> 2) pre)"
    by (simp add: clean_rows_scan)
  moreover have "\<exists>rows. clean_rows data (scan_range data) [] = Inr rows"
    by (simp add: clean_rows_scan)
  ultimately show ?thesis using s r e
    by blast
qed

theorem scan_skips_last_two_witness:
  "scan_range example_lines = [0, 1, 2, 3]
   \<and> length (last example_lines) \<le> 2
   \<and> clean_rows example_lines (scan_range example_lines) []
       = Inr [[''Boston Red Sox'', ''100''], [''New York Yankees'', ''90'']]"
proof -
  have u: "[0 ..< length [''1'', ''Boston Red Sox'', ''100'', ''2'']] = [0, 1, 2, 3]"
    by code_simp
  from scan_skips_last_two
         [of "[''1'', ''Boston Red Sox'', ''100'', ''2'']" "''New York Yankees''" "''90''",
          THEN conjunct1]
  have s: "scan_range example_lines = [0, 1, 2, 3]"
    by (simp only: example_lines_split [symmetric] u)
  have l: "length (last example_lines) \<le> 2"
    by code_simp
  have r: "clean_rows example_lines (scan_range example_lines) []
       = Inr [[''Boston Red Sox'', ''100''], [''New York Yankees'', ''90'']]"
    by code_simp
  from s l r show ?thesis
    by (intro conjI)
qed

text \<open>
  C3. On a valid input, where the data line of every recognised triplet has one
  field for each header after the first, \<open>clean_raw\<close> returns a table: its column
  names are the header lines (the first \<open>head_ind_start\<close> lines, in order), it has as
  many columns as there are header lines and as many rows as there are markers, and
  every column has one cell for each row.
\<close>

theorem clean_raw_shape:
  assumes "0 \<le> h"
    and "\<forall>i. i + 2 < length (raw_lines text h) \<and> length (raw_lines text h ! i) \<le> 2 \<longrightarrow>
           Suc (length (split_on space (raw_lines text h ! (i + 2)))) = length (raw_headers text h)"
  shows "raw_headers text h = take (nat h) (split_on newline text)
   \<and> (\<exists>df. clean_raw text h = Inr df
          \<and> columns df = raw_headers text h
          \<and> length (cols df) = length (raw_headers text h)
          \<and> index df = length (filter (\<lambda>i. length (raw_lines text h ! i) \<le> 2)
                                       [0 ..< length (raw_lines text h) - 2])
          \<and> (\<forall>s \<in> snd ` set (cols df). series_len s = index df))"
proof -
  let ?rows = "marker_rows (raw_lines text h)"
  let ?hs = "raw_headers text h"
  have hd: "?hs = take (nat h) (split_on newline text)"
    using assms(1) by (simp add: raw_headers_def slice_to_def slice_bound_def)
  have len: "\<forall>r \<in> set ?rows. length r = length ?hs"
    using assms(2) by (auto simp: marker_rows_def)
  have w: "?rows \<noteq> [] \<Longrightarrow> row_width ?rows = length ?hs"
    using row_width_uniform [OF len] by simp
  show ?thesis
  proof (cases "?rows = []")
    case True
    then have "clean_raw text h = Inr \<lparr>index = 0, cols = map (\<lambda>h. (h, ObjectS [])) ?hs\<rparr>"
      by (simp add: clean_raw_eq DataFrame_def)
    moreover from True have "length (filter (\<lambda>i. length (raw_lines text h ! i) \<le> 2)
                                       [0 ..< length (raw_lines text h) - 2]) = 0"
      by (simp add: marker_rows_def)
    ultimately show ?thesis using hd
      by (auto simp: columns_def comp_def)
  next
    case False
    with w have "clean_raw text h = Inr \<lparr>index = length ?rows,
        cols = map (\<lambda>j. (?hs ! j, ObjectS (map (\<lambda>r. row_cell r j) ?rows))) [0 ..< length ?hs]\<rparr>"
      by (simp add: clean_raw_eq DataFrame_def)
    moreover have "length ?rows = length (filter (\<lambda>i. length (raw_lines text h ! i) \<le> 2)
                                       [0 ..< length (raw_lines text h) - 2])"
      by (simp add: marker_rows_def)
    moreover have "map (\<lambda>j. ?hs ! j) [0 ..< length ?hs] = ?hs"
      by (rule map_nth)
    ultimately show ?thesis using hd
      by (auto simp: columns_def comp_def)
  qed
qed

theorem clean_raw_shape_witness:
  "(0::int) \<le> 2
   \<and> raw_headers example_page 2 = [''Team'', ''Hits'']
   \<and> (\<exists>df. clean_raw example_page 2 = Inr df \<and> columns df = [''Team'', ''Hits'']
            \<and> length (cols df) = 2 \<and> index df = 2)"
proof -
  have v: "list_all (\<lambda>i. length (example_lines ! i) \<le> 2 \<longrightarrow>
                  Suc (length (split_on space (example_lines ! (i + 2)))) = 2) [0 ..< 4]"
    by code_simp
  have n: "length example_lines = 6"
    by (simp add: example_lines_def)
  have "\<forall>i. i + 2 < length example_lines \<and> length (example_lines ! i) \<le> 2 \<longrightarrow>
           Suc (length (split_on space (example_lines ! (i + 2)))) = 2"
    using v by (auto simp: list_all_iff n)
  then have valid: "\<forall>i. i + 2 < length (raw_lines example_page 2)
             \<and> length (raw_lines example_page 2 ! i) \<le> 2 \<longrightarrow>
           Suc (length (split_on space (raw_lines example_page 2 ! (i + 2))))
             = length (raw_headers example_page 2)"
    by (simp only: example_raw_lines example_raw_headers) simp
  have z: "(0::int) \<le> 2"
    by simp
  have c: "length (filter (\<lambda>i. length (example_lines ! i) \<le> 2) [0 ..< length example_lines - 2]) = 2"
    by code_simp
  from clean_raw_shape [OF z valid, THEN conjunct2]
  have "\<exists>df. clean_raw example_page 2 = Inr df \<and> columns df = [''Team'', ''Hits'']
            \<and> length (cols df) = 2 \<and> index df = 2"
    by (simp only: example_raw_lines example_raw_headers c) auto
  with z example_raw_headers show ?thesis
    by (intro conjI)
qed

text \<open>
  C9. The scan does not jump over the lines of a triplet it has recognised. When
  the line at \<open>i\<close> is a marker and a later line at \<open>i + d\<close> has at most two
  characters too (\<open>d = 1\<close>: the team-name line, \<open>d = 2\<close>: the data line of the
  first triplet), both give a row of their own, and for \<open>d = 1\<close> or \<open>d = 2\<close> the
  two rows are built from shared lines.
\<close>

theorem scan_rows_overlap:
  assumes "0 < d" and "i + d + 2 < length data"
    and "length (data ! i) \<le> 2" and "length (data ! (i + d)) \<le> 2"
  shows "\<exists>A B C. clean_rows data (scan_range data) [] =
           Inr (A @ [data ! (i + 1) # split_on space (data ! (i + 2))]
                  @ B @ [data ! (i + d + 1) # split_on space (data ! (i + d + 2))] @ C)"
proof -
  let ?P = "\<lambda>i. length (data ! i) \<le> 2"
  let ?f = "\<lambda>i. data ! (i + 1) # split_on space (data ! (i + 2))"
  have "[0 ..< length data - 2]
          = [0 ..< i] @ i # [Suc i ..< i + d] @ (i + d) # [Suc (i + d) ..< length data - 2]"
    using assms(1,2) by (intro upt_two_split) simp_all
  then have "marker_rows data =
      map ?f (filter ?P [0 ..< i]) @ [?f i] @ map ?f (filter ?P [Suc i ..< i + d])
        @ [?f (i + d)] @ map ?f (filter ?P [Suc (i + d) ..< length data - 2])"
    using assms(3,4) by (simp add: marker_rows_def)
  then have e: "clean_rows data (scan_range data) [] =
      Inr (map ?f (filter ?P [0 ..< i]) @ [?f i] @ map ?f (filter ?P [Suc i ..< i + d])
        @ [?f (i + d)] @ map ?f (filter ?P [Suc (i + d) ..< length data - 2]))"
    by (simp only: clean_rows_scan)
  show ?thesis
  proof (intro exI)
    show "clean_rows data (scan_range data) [] =
      Inr (map ?f (filter ?P [0 ..< i]) @ [data ! (i + 1) # split_on space (data ! (i + 2))]
        @ map ?f (filter ?P [Suc i ..< i + d])
        @ [data ! (i + d + 1) # split_on space (data ! (i + d + 2))]
        @ map ?f (filter ?P [Suc (i + d) ..< length data - 2]))"
      using e by (simp only: add.assoc)
  qed
qed

theorem scan_rows_overlap_witness:
  "(0::nat) < 1 \<and> 0 + 1 + 2 < length [''1'', ''2'', ''30 40'', ''x'']
   \<and> (\<exists>A B C. clean_rows [''1'', ''2'', ''30 40'', ''x'']
                 (scan_range [''1'', ''2'', ''30 40'', ''x'']) [] =
           Inr (A @ [[''2'', ''30'', ''40'']] @ B @ [[''30 40'', ''x'']] @ C))"
proof -
  let ?data = "[''1'', ''2'', ''30 40'', ''x'']"
  have s: "?data ! (0 + 1) # split_on space (?data ! (0 + 2)) = [''2'', ''30'', ''40'']"
          "?data ! (0 + 1 + 1) # split_on space (?data ! (0 + 1 + 2)) = [''30 40'', ''x'']"
    by code_simp+
  have h: "(0::nat) < 1" "0 + 1 + 2 < length ?data"
          "length (?data ! 0) \<le> 2" "length (?data ! (0 + 1)) \<le> 2"
    by simp_all
  from scan_rows_overlap [OF h]
  have "\<exists>A B C. clean_rows ?data (scan_range ?data) [] =
           Inr (A @ [[''2'', ''30'', ''40'']] @ B @ [[''30 40'', ''x'']] @ C)"
    by (simp only: s)
  with h(1,2) show ?thesis
    by (intro conjI)
qed

section \<open>Properties of data_mung\<close>

lemma convert_col_target:
  "convert_col np df col =
     (case getitem (cols df) col of
        Inl e \<Rightarrow> Inl e
      | Inr s \<Rightarrow> (case astype np s (target col) of
                   Inl e \<Rightarrow> Inl e
                 | Inr v \<Rightarrow> Inr (df\<lparr>cols := setitem (cols df) col v\<rparr>)))"
  by (cases "col \<in> set float_cols")
     (simp_all add: convert_col_def target_def split: sum.splits)

lemma getitem_mid:
  "col \<notin> fst ` set pre \<Longrightarrow> getitem (pre @ (col, s) # post) col = Inr s"
  by (induction pre) auto

lemma setitem_mid:
  "col \<notin> fst ` set pre \<Longrightarrow> setitem (pre @ (col, s) # post) col v = pre @ (col, v) # post"
  by (induction pre) auto


lemma loop_closed:
  "distinct (map fst (pre @ post)) \<Longrightarrow>
   data_mung_loop np (map fst post) (df\<lparr>cols := pre @ post\<rparr>) =
     (case mung_cols np post of (e, post') \<Rightarrow> (e, df\<lparr>cols := pre @ post'\<rparr>))"
proof (induction post arbitrary: pre)
  case Nil
  then show ?case by simp
next
  case (Cons c post)
  obtain col s where c: "c = (col, s)" by (cases c)
  from Cons.prems have notin: "col \<notin> fst ` set pre" and d: "distinct (map fst ((pre @ [(col, v)]) @ post))" for v
    by (auto simp: c)
  show ?case
  proof (cases "astype np s (target col)")
    case (Inl e)
    show ?thesis
    proof (cases "e = ValueError")
      case True
      from Cons.IH [of "pre @ [(col, s)]"] d [of s] Inl True notin show ?thesis
        by (simp add: c convert_col_target getitem_mid split: prod.splits)
    next
      case False
      with Inl notin show ?thesis
        by (simp add: c convert_col_target getitem_mid)
    qed
  next
    case (Inr v)
    from Cons.IH [of "pre @ [(col, v)]"] d [of v] Inr notin show ?thesis
      by (simp add: c convert_col_target getitem_mid setitem_mid split: prod.splits)
  qed
qed

lemma data_mung_closed:
  assumes "distinct (columns df)"
  shows "data_mung np df = (case mung_cols np (cols df) of (e, cs) \<Rightarrow> (e, df\<lparr>cols := cs\<rparr>))"
  using loop_closed [of "[]" "cols df" np df] assms
  by (simp add: data_mung_def columns_def)

lemma astype_dtype:
  "astype np s int_t = Inr v \<Longrightarrow> \<exists>xs. v = IntS xs"
  "astype np s float32_t = Inr v \<Longrightarrow> \<exists>fs. v = Float32S fs"
  by (cases s; auto split: sum.splits)+

lemma astype_again: "astype np s t = Inr v \<Longrightarrow> astype np v t = Inr v"
  by (cases t) (auto dest: astype_dtype)

lemma traverse_length: "traverse f xs = Inr ys \<Longrightarrow> length ys = length xs"
  by (induction xs arbitrary: ys) (auto split: sum.splits)

lemma astype_len: "astype np s t = Inr v \<Longrightarrow> series_len v = series_len s"
  by (cases s; cases t) (auto split: sum.splits dest: traverse_length)

lemma mung_cols_names: "map fst (snd (mung_cols np cs)) = map fst cs"
  by (induction cs) (auto split: sum.splits prod.splits)

lemma mung_cols_lens:
  "map (\<lambda>c. series_len (snd c)) (snd (mung_cols np cs)) = map (\<lambda>c. series_len (snd c)) cs"
  by (induction cs) (auto split: sum.splits prod.splits dest: astype_len)

lemma mung_cols_again: "mung_cols np (snd (mung_cols np cs)) = mung_cols np cs"
proof (induction cs)
  case Nil
  then show ?case by simp
next
  case (Cons c cs)
  obtain col s where c: "c = (col, s)" by (cases c)
  show ?case
  proof (cases "astype np s (target col)")
    case (Inl e)
    with Cons.IH show ?thesis
      by (cases "mung_cols np cs") (simp add: c)
  next
    case (Inr v)
    with Cons.IH astype_again [OF Inr] show ?thesis
      by (cases "mung_cols np cs") (simp add: c)
  qed
qed

lemma mung_cols_normal:
  "fst (mung_cols np cs) = None \<Longrightarrow> i < length cs \<Longrightarrow> cs ! i = (col, s) \<Longrightarrow>
   astype np s (target col) = Inr v \<Longrightarrow> snd (mung_cols np cs) ! i = (col, v)"
proof (induction cs arbitrary: i)
  case Nil
  then show ?case by simp
next
  case (Cons c cs)
  obtain c0 s0 where c: "c = (c0, s0)" by (cases c)
  obtain e r where m: "mung_cols np cs = (e, r)" by (cases "mung_cols np cs")
  from Cons.prems(1) have e: "fst (mung_cols np cs) = None"
    by (auto simp: c m split: sum.splits if_splits)
  show ?case
  proof (cases i)
    case 0
    with Cons.prems show ?thesis
      by (auto simp: c m split: sum.splits if_splits)
  next
    case (Suc k)
    with Cons.prems Cons.IH [OF e, of k] show ?thesis
      by (auto simp: c m split: sum.splits if_splits)
  qed
qed

lemma mung_cols_failed:
  "i < length cs \<Longrightarrow> cs ! i = (col, s) \<Longrightarrow> astype np s (target col) = Inl e \<Longrightarrow>
   snd (mung_cols np cs) ! i = (col, s)"
proof (induction cs arbitrary: i)
  case Nil
  then show ?case by simp
next
  case (Cons c cs)
  obtain c0 s0 where c: "c = (c0, s0)" by (cases c)
  obtain e' r where m: "mung_cols np cs = (e', r)" by (cases "mung_cols np cs")
  show ?case
  proof (cases i)
    case 0
    with Cons.prems show ?thesis
      by (auto simp: c m split: sum.splits if_splits)
  next
    case (Suc k)
    with Cons.prems Cons.IH [of k] show ?thesis
      by (auto simp: c m split: sum.splits if_splits)
  qed
qed

lemma mung_cols_either:
  "i < length cs \<Longrightarrow> cs ! i = (col, s) \<Longrightarrow>
   snd (mung_cols np cs) ! i = (col, s)
   \<or> (\<exists>v. astype np s (target col) = Inr v \<and> snd (mung_cols np cs) ! i = (col, v))"
proof (induction cs arbitrary: i)
  case Nil
  then show ?case by simp
next
  case (Cons c cs)
  obtain c0 s0 where c: "c = (c0, s0)" by (cases c)
  obtain e' r where m: "mung_cols np cs = (e', r)" by (cases "mung_cols np cs")
  show ?case
  proof (cases i)
    case 0
    with Cons.prems show ?thesis
      by (auto simp: c m split: sum.splits if_splits)
  next
    case (Suc k)
    with Cons.prems Cons.IH [of k] show ?thesis
      by (auto simp: c m split: sum.splits if_splits)
  qed
qed

lemma target_set:
  "target col = (if col \<in> {''AVG'', ''OBP'', ''SLG'', ''OPS'', ''IP'', ''ERA'', ''WHIP''}
                 then float32_t else int_t)"
  by (simp add: target_def float_cols_def)





lemma example_run: "data_mung example_numpy example_table = (None, example_result)"
  by code_simp

lemma example_distinct: "distinct (columns example_table)"
  by code_simp

text \<open>
  C4. The dtype asked for is \<open>float32\<close> exactly for the names AVG, OBP, SLG, OPS,
  IP, ERA and WHIP (the second AVG of the list adds nothing) and \<open>int\<close> for every
  other name. When the call returns, a column whose cells convert holds the
  converted values, 32-bit floats or integers by its name; a column whose
  conversion raises is left as it was. In every case a column is either as it was or
  converted to the dtype of its name.
\<close>

theorem data_mung_converts_by_name:
  assumes "distinct (columns df)" and "i < length (cols df)" and "cols df ! i = (col, s)"
  shows "target col = (if col \<in> {''AVG'', ''OBP'', ''SLG'', ''OPS'', ''IP'', ''ERA'', ''WHIP''}
                       then float32_t else int_t)
    \<and> (\<forall>v. fst (data_mung np df) = None \<and> astype np s (target col) = Inr v \<longrightarrow>
           cols (snd (data_mung np df)) ! i = (col, v)
           \<and> (target col = float32_t \<longrightarrow> (\<exists>fs. v = Float32S fs))
           \<and> (target col = int_t \<longrightarrow> (\<exists>xs. v = IntS xs)))
    \<and> (\<forall>e. astype np s (target col) = Inl e \<longrightarrow> cols (snd (data_mung np df)) ! i = (col, s))
    \<and> (cols (snd (data_mung np df)) ! i = (col, s)
        \<or> (\<exists>v. astype np s (target col) = Inr v \<and> cols (snd (data_mung np df)) ! i = (col, v)))"
proof -
  obtain e cs where m: "mung_cols np (cols df) = (e, cs)"
    by (cases "mung_cols np (cols df)")
  have run: "data_mung np df = (e, df\<lparr>cols := cs\<rparr>)"
    using assms(1) by (simp add: data_mung_closed m)
  have a: "cols (snd (data_mung np df)) ! i = (col, v)"
    if "fst (data_mung np df) = None" and "astype np s (target col) = Inr v" for v
    using mung_cols_normal [of np "cols df" i col s v] that assms(2,3) by (simp add: run m)
  have b: "cols (snd (data_mung np df)) ! i = (col, s)"
    if "astype np s (target col) = Inl e'" for e'
    using mung_cols_failed [of i "cols df" col s np e'] that assms(2,3) by (simp add: run m)
  have c: "target col = float32_t \<longrightarrow> (\<exists>fs. v = Float32S fs)"
          "target col = int_t \<longrightarrow> (\<exists>xs. v = IntS xs)"
    if "astype np s (target col) = Inr v" for v
    using that astype_dtype [of np s v] by auto
  have d: "cols (snd (data_mung np df)) ! i = (col, s)
        \<or> (\<exists>v. astype np s (target col) = Inr v \<and> cols (snd (data_mung np df)) ! i = (col, v))"
    using mung_cols_either [of i "cols df" col s np] assms(2,3) by (simp add: run m)
  from a b c d show ?thesis
    by (simp only: target_set [symmetric]) blast
qed

theorem data_mung_converts_by_name_witness:
  "distinct (columns example_table) \<and> 2 < length (cols example_table)
   \<and> fst (data_mung example_numpy example_table) = None
   \<and> target ''AVG'' = float32_t
   \<and> cols (snd (data_mung example_numpy example_table)) ! 2
       = (''AVG'', Float32S [0x3E800000, 0x3F000000])"
proof -
  let ?s = "ObjectS [Str ''.250'', Str ''.500'']"
  have i: "2 < length (cols example_table)"
    by (simp add: example_table_def)
  have c: "cols example_table ! 2 = (''AVG'', ?s)"
    by (simp add: example_table_def)
  have n: "fst (data_mung example_numpy example_table) = None"
    by (simp add: example_run)
  have t: "target ''AVG'' = float32_t"
    by code_simp
  have a: "astype example_numpy ?s (target ''AVG'') = Inr (Float32S [0x3E800000, 0x3F000000])"
    by code_simp
  from data_mung_converts_by_name [OF example_distinct i c, of example_numpy] n a
  have "cols (snd (data_mung example_numpy example_table)) ! 2
          = (''AVG'', Float32S [0x3E800000, 0x3F000000])"
    by blast
  with example_distinct i n t show ?thesis
    by blast
qed

text \<open>
  C5. Type coercion is idempotent: running \<open>data_mung\<close> on the table that a first
  run left behind ends the same way and leaves the same table.
\<close>

theorem data_mung_idempotent:
  assumes "distinct (columns df)"
  shows "data_mung np (snd (data_mung np df)) = data_mung np df"
proof -
  obtain e cs where m: "mung_cols np (cols df) = (e, cs)"
    by (cases "mung_cols np (cols df)")
  have first: "data_mung np df = (e, df\<lparr>cols := cs\<rparr>)"
    using assms by (simp add: data_mung_closed m)
  have "map fst cs = map fst (cols df)"
    using mung_cols_names [of np "cols df"] by (simp add: m)
  with assms have "distinct (columns (df\<lparr>cols := cs\<rparr>))"
    by (simp add: columns_def)
  then have "data_mung np (df\<lparr>cols := cs\<rparr>) =
      (case mung_cols np cs of (e', cs') \<Rightarrow> (e', df\<lparr>cols := cs'\<rparr>))"
    by (simp add: data_mung_closed)
  moreover have "mung_cols np cs = (e, cs)"
    using mung_cols_again [of np "cols df"] by (simp add: m)
  ultimately show ?thesis
    by (simp add: first)
qed

theorem data_mung_idempotent_witness:
  "distinct (columns example_table)
   \<and> data_mung example_numpy (snd (data_mung example_numpy example_table))
       = (None, example_result)"
  using data_mung_idempotent [OF example_distinct, of example_numpy] example_distinct
  by (simp add: example_run)



text \<open>
  C10. \<open>data_mung\<close> changes cells and dtypes only: the column names and their
  order, the number of rows and the length of every column are the same after the
  call as before it.
\<close>

theorem data_mung_keeps_shape:
  assumes "distinct (columns df)"
  shows "columns (snd (data_mung np df)) = columns df
    \<and> index (snd (data_mung np df)) = index df
    \<and> map (\<lambda>c. series_len (snd c)) (cols (snd (data_mung np df)))
        = map (\<lambda>c. series_len (snd c)) (cols df)"
proof -
  obtain e cs where m: "mung_cols np (cols df) = (e, cs)"
    by (cases "mung_cols np (cols df)")
  have run: "data_mung np df = (e, df\<lparr>cols := cs\<rparr>)"
    using assms by (simp add: data_mung_closed m)
  have "map fst cs = map fst (cols df)"
    using mung_cols_names [of np "cols df"] by (simp add: m)
  moreover have "map (\<lambda>c. series_len (snd c)) cs = map (\<lambda>c. series_len (snd c)) (cols df)"
    using mung_cols_lens [of np "cols df"] by (simp add: m)
  ultimately show ?thesis
    by (simp add: run columns_def)
qed

theorem data_mung_keeps_shape_witness:
  "distinct (columns example_table)
   \<and> columns (snd (data_mung example_numpy example_table)) = [''TEAM'', ''G'', ''AVG'']
   \<and> index (snd (data_mung example_numpy example_table)) = 2"
proof -
  have "columns example_table = [''TEAM'', ''G'', ''AVG'']" "index example_table = 2"
    by (simp_all add: example_table_def columns_def)
  with data_mung_keeps_shape [OF example_distinct, of example_numpy] example_distinct
  show ?thesis by simp
qed

section \<open>Properties of change_url\<close>

lemma starts_with_iff: "starts_with ys xs \<longleftrightarrow> (\<exists>ss. ys = xs @ ss)"
  by (induction ys xs rule: starts_with.induct) auto

lemma str_in_iff: "str_in xs ys \<longleftrightarrow> (\<exists>ps ss. ys = ps @ xs @ ss)"
proof (induction ys)
  case Nil
  then show ?case by auto
next
  case (Cons y ys)
  show ?case
  proof
    assume "str_in xs (y # ys)"
    then consider "starts_with (y # ys) xs" | "str_in xs ys" by auto
    then show "\<exists>ps ss. y # ys = ps @ xs @ ss"
    proof cases
      case 1
      then obtain ss where "y # ys = xs @ ss" by (auto simp: starts_with_iff)
      then have "y # ys = [] @ xs @ ss" by simp
      then show ?thesis by blast
    next
      case 2
      with Cons.IH obtain ps ss where "ys = ps @ xs @ ss" by blast
      then have "y # ys = (y # ps) @ xs @ ss" by simp
      then show ?thesis by blast
    qed
  next
    assume "\<exists>ps ss. y # ys = ps @ xs @ ss"
    then obtain ps ss where e: "y # ys = ps @ xs @ ss" by blast
    show "str_in xs (y # ys)"
    proof (cases ps)
      case Nil
      with e have "starts_with (y # ys) xs" by (auto simp: starts_with_iff)
      then show ?thesis by simp
    next
      case (Cons p ps')
      with e have "ys = ps' @ xs @ ss" by simp
      with Cons.IH have "str_in xs ys" by blast
      then show ?thesis by simp
    qed
  qed
qed

lemma filter_first:
  assumes "i < length xs" and "P (xs ! i)" and "\<forall>j<i. \<not> P (xs ! j)"
  shows "filter P xs = xs ! i # filter P (drop (Suc i) xs)"
proof -
  have "\<forall>x \<in> set (take i xs). \<not> P x"
    using assms(1,3) by (auto simp: in_set_conv_nth)
  then have "filter P (take i xs) = []"
    by (simp add: filter_empty_conv)
  moreover have "xs = take i xs @ xs ! i # drop (Suc i) xs"
    using assms(1) by (simp add: id_take_nth_drop)
  ultimately show ?thesis
    using assms(2) by (metis append_Nil filter.simps(2) filter_append)
qed

lemma red_sox_entry:
  "3 < length teams"
  "\<exists>ps ss. lower (fst (teams ! 3)) = ps @ lower ''red sox'' @ ss"
  "\<forall>j<3. \<not> (\<exists>ps ss. lower (fst (teams ! j)) = ps @ lower ''red sox'' @ ss)"
  "snd (teams ! 3) = ''redsox''"
proof -
  show "3 < length teams"
    by (simp add: teams_def)
  have "str_in (lower ''red sox'') (lower (fst (teams ! 3)))"
    by code_simp
  then show "\<exists>ps ss. lower (fst (teams ! 3)) = ps @ lower ''red sox'' @ ss"
    by (simp only: str_in_iff)
  have n: "\<not> str_in (lower ''red sox'') (lower (fst (teams ! 0)))"
       "\<not> str_in (lower ''red sox'') (lower (fst (teams ! 1)))"
       "\<not> str_in (lower ''red sox'') (lower (fst (teams ! 2)))"
    by code_simp+
  have "\<not> str_in (lower ''red sox'') (lower (fst (teams ! j)))" if "j < 3" for j
  proof -
    from that have "j = 0 \<or> j = 1 \<or> j = 2" by arith
    with n show ?thesis by blast
  qed
  then show "\<forall>j<3. \<not> (\<exists>ps ss. lower (fst (teams ! j)) = ps @ lower ''red sox'' @ ss)"
    by (simp only: str_in_iff [symmetric]) blast
  show "snd (teams ! 3) = ''redsox''"
    by code_simp
qed

lemma first_match_url:
  assumes "i < length teams"
    and "\<exists>ps ss. lower (fst (teams ! i)) = ps @ lower team_name @ ss"
    and "\<forall>j<i. \<not> (\<exists>ps ss. lower (fst (teams ! j)) = ps @ lower team_name @ ss)"
  shows "change_url self team_name =
           (None, self\<lparr>url := ''https://www.mlb.com/'' @ snd (teams ! i) @ ''/stats/team/''\<rparr>)"
proof -
  let ?P = "\<lambda>n. str_in (lower team_name) (lower (fst n))"
  have "filter ?P teams = teams ! i # filter ?P (drop (Suc i) teams)"
    using assms by (intro filter_first) (simp_all add: str_in_iff)
  then show ?thesis
    by (simp add: change_url_def list_getitem_def)
qed

text \<open>
  C7. When some entry of the directory matches, \<open>change_url\<close> takes the slug of
  the first entry whose display name, in lower case, contains the input in lower
  case, and sets the session URL to \<open>https://www.mlb.com/<slug>/stats/team/\<close>.
  For the input \<open>red sox\<close> the slug is \<open>redsox\<close>.
\<close>

theorem change_url_first_match:
  "(i < length teams
      \<and> (\<exists>ps ss. lower (fst (teams ! i)) = ps @ lower team_name @ ss)
      \<and> (\<forall>j<i. \<not> (\<exists>ps ss. lower (fst (teams ! j)) = ps @ lower team_name @ ss))
    \<longrightarrow> change_url self team_name =
          (None, self\<lparr>url := ''https://www.mlb.com/'' @ snd (teams ! i) @ ''/stats/team/''\<rparr>))
   \<and> change_url self ''red sox'' =
          (None, self\<lparr>url := ''https://www.mlb.com/redsox/stats/team/''\<rparr>)"
proof (intro conjI impI)
  assume "i < length teams
      \<and> (\<exists>ps ss. lower (fst (teams ! i)) = ps @ lower team_name @ ss)
      \<and> (\<forall>j<i. \<not> (\<exists>ps ss. lower (fst (teams ! j)) = ps @ lower team_name @ ss))"
  then show "change_url self team_name =
          (None, self\<lparr>url := ''https://www.mlb.com/'' @ snd (teams ! i) @ ''/stats/team/''\<rparr>)"
    by (intro first_match_url) simp_all
next
  from first_match_url [OF red_sox_entry(1-3), of self]
  show "change_url self ''red sox'' =
          (None, self\<lparr>url := ''https://www.mlb.com/redsox/stats/team/''\<rparr>)"
    by (simp only: red_sox_entry(4) append.simps)
qed

theorem change_url_first_match_witness:
  "3 < length teams
   \<and> snd (teams ! 3) = ''redsox''
   \<and> change_url TeamStats_init ''red sox'' =
       (None, TeamStats_init\<lparr>url := ''https://www.mlb.com/redsox/stats/team/''\<rparr>)"
proof -
  have h: "3 < length teams
      \<and> (\<exists>ps ss. lower (fst (teams ! 3)) = ps @ lower ''red sox'' @ ss)
      \<and> (\<forall>j<3. \<not> (\<exists>ps ss. lower (fst (teams ! j)) = ps @ lower ''red sox'' @ ss))"
    using red_sox_entry(1-3) by (intro conjI)
  from change_url_first_match [of 3 "''red sox''" TeamStats_init, THEN conjunct1, rule_format, OF h]
  have "change_url TeamStats_init ''red sox'' =
       (None, TeamStats_init\<lparr>url := ''https://www.mlb.com/redsox/stats/team/''\<rparr>)"
    by (simp only: red_sox_entry(4) append.simps)
  with red_sox_entry(1,4) show ?thesis
    by (intro conjI)
qed

text \<open>
  C8. When no entry matches, the list of slugs is empty, reading its first element
  raises IndexError, and the session is as it was, its URL included.
\<close>

theorem change_url_no_match:
  assumes "\<forall>n \<in> set teams. \<not> (\<exists>ps ss. lower (fst n) = ps @ lower team_name @ ss)"
  shows "change_url self team_name = (Some IndexError, self)"
proof -
  have "filter (\<lambda>n. str_in (lower team_name) (lower (fst n))) teams = []"
    using assms by (simp add: filter_empty_conv str_in_iff)
  then show ?thesis
    by (simp add: change_url_def list_getitem_def)
qed

theorem change_url_no_match_witness:
  "change_url TeamStats_init ''zzz-no-team'' = (Some IndexError, TeamStats_init)
   \<and> url (snd (change_url TeamStats_init ''zzz-no-team'')) = ''https://www.mlb.com/yankees/stats/team/''"
proof -
  have "list_all (\<lambda>n. \<not> str_in (lower ''zzz-no-team'') (lower (fst n))) teams"
    by code_simp
  then have "\<forall>n \<in> set teams. \<not> (\<exists>ps ss. lower (fst n) = ps @ lower ''zzz-no-team'' @ ss)"
    by (simp only: list_all_iff str_in_iff)
  from change_url_no_match [OF this, of TeamStats_init] show ?thesis
    by (simp add: TeamStats_init_def)
qed

end
